theory Spec2Isabelle
  imports Main "HOL-Library.Word"
begin

section \<open>Outcomes\<close>

text \<open>
  Every exception the sources throw is a value of \<open>failure\<close>, with the message it carries.
  \<open>LexerError\<close> is the lexer's own class (derived from \<open>std::runtime_error\<close>);
  \<open>logic_error\<close>, \<open>out_of_range\<close> and \<open>runtime_error\<close> are the standard classes thrown
  as such. \<open>undefined_behaviour\<close> marks the places where the source reads an uninitialised
  variable or dereferences a null pointer.
\<close>

datatype failure =
    LexerError string
  | logic_error string
  | out_of_range string
  | runtime_error string
  | undefined_behaviour string

section \<open>Tokens (lexer.h)\<close>

datatype Token =
    Number_tok "32 word"
  | Id_tok string
  | Char_tok char
  | String_tok string
  | Class_tok | Return_tok | If_tok | Else_tok | Def_tok | Newline_tok | Print_tok
  | Indent_tok | Dedent_tok | And_tok | Or_tok | Not_tok
  | Eq_tok | NotEq_tok | LessOrEq_tok | GreaterOrEq_tok
  | None_tok | True_tok | False_tok | Eof_tok

section \<open>The input stream\<close>

text \<open>
  A \<open>std::istream\<close> is the unread input together with the two state bits the lexer can set.
  Every operation starts with the sentry: on a stream that is not \<open>good\<close> it sets
  \<open>failbit\<close> and extracts nothing. \<open>peek\<close> at the end of input sets \<open>eofbit\<close>; \<open>get\<close> at the
  end of input sets \<open>eofbit\<close> and \<open>failbit\<close>. \<open>putback\<close> first clears \<open>eofbit\<close>; in the lexer
  every \<open>putback\<close> that passes the sentry returns the character extracted last, so it is
  the move of the read position one step back.
\<close>

record istream =
  buf :: string
  eofbit :: bool
  failbit :: bool

definition from_string :: "string \<Rightarrow> istream" where
  "from_string src = \<lparr>buf = src, eofbit = False, failbit = False\<rparr>"

definition good :: "istream \<Rightarrow> bool" where
  "good s \<longleftrightarrow> \<not> eofbit s \<and> \<not> failbit s"

text \<open>\<open>operator bool\<close> of the stream: \<open>!fail()\<close>.\<close>

definition stream_ok :: "istream \<Rightarrow> bool" where
  "stream_ok s \<longleftrightarrow> \<not> failbit s"

text \<open>\<open>rdstate() == std::ios_base::eofbit\<close>: \<open>eofbit\<close> and nothing else.\<close>

definition rdstate_is_eofbit :: "istream \<Rightarrow> bool" where
  "rdstate_is_eofbit s \<longleftrightarrow> eofbit s \<and> \<not> failbit s"

definition peek :: "istream \<Rightarrow> char option \<times> istream" where
  "peek s =
     (if \<not> good s then (None, s\<lparr>failbit := True\<rparr>)
      else (case buf s of
              [] \<Rightarrow> (None, s\<lparr>eofbit := True\<rparr>)
            | c # cs \<Rightarrow> (Some c, s)))"

definition get :: "istream \<Rightarrow> char option \<times> istream" where
  "get s =
     (if \<not> good s then (None, s\<lparr>failbit := True\<rparr>)
      else (case buf s of
              [] \<Rightarrow> (None, s\<lparr>eofbit := True, failbit := True\<rparr>)
            | c # cs \<Rightarrow> (Some c, s\<lparr>buf := cs\<rparr>)))"

definition putback :: "char \<Rightarrow> istream \<Rightarrow> istream" where
  "putback c s =
     (if failbit s then s\<lparr>eofbit := False\<rparr>
      else s\<lparr>buf := c # buf s, eofbit := False\<rparr>)"

text \<open>
  \<open>std::getline(istr, tmp, '\n')\<close>: extracts up to and including the first newline, which
  it drops; reaching the end of input sets \<open>eofbit\<close>, and \<open>failbit\<close> too when nothing was
  extracted. The line read is returned with the stream.
\<close>

definition getline :: "istream \<Rightarrow> string \<times> istream" where
  "getline s =
     (if \<not> good s then ([], s\<lparr>failbit := True\<rparr>)
      else (let line = takeWhile (\<lambda>c. c \<noteq> CHR 0x0A) (buf s);
                rest = dropWhile (\<lambda>c. c \<noteq> CHR 0x0A) (buf s)
            in (case rest of
                  [] \<Rightarrow> (line, s\<lparr>buf := [], eofbit := True, failbit := (line = [])\<rparr>)
                | c # cs \<Rightarrow> (line, s\<lparr>buf := cs\<rparr>))))"

section \<open>Character classes\<close>

text \<open>
  \<open>std::isalpha\<close>, \<open>std::isdigit\<close>, \<open>std::isalnum\<close> and \<open>std::ispunct\<close> in the default "C"
  locale: they hold of ASCII characters only.
\<close>

definition isalpha :: "char \<Rightarrow> bool" where
  "isalpha c \<longleftrightarrow> (let n = (of_char c :: nat) in (65 \<le> n \<and> n \<le> 90) \<or> (97 \<le> n \<and> n \<le> 122))"

definition isdigit :: "char \<Rightarrow> bool" where
  "isdigit c \<longleftrightarrow> (let n = (of_char c :: nat) in 48 \<le> n \<and> n \<le> 57)"

definition isalnum :: "char \<Rightarrow> bool" where
  "isalnum c \<longleftrightarrow> isalpha c \<or> isdigit c"

definition ispunct :: "char \<Rightarrow> bool" where
  "ispunct c \<longleftrightarrow> (let n = (of_char c :: nat) in
     (33 \<le> n \<and> n \<le> 47) \<or> (58 \<le> n \<and> n \<le> 64) \<or> (91 \<le> n \<and> n \<le> 96) \<or> (123 \<le> n \<and> n \<le> 126))"

section \<open>The lexer (lexer.h, lexer.cpp)\<close>

text \<open>
  The members of \<open>Lexer\<close>: the token vector, the cursor (an index into the vector) and the
  indent depth (the source's names end in an underscore, which a HOL name cannot).
  \<open>global_indent_counter\<close> is an \<open>int\<close>; it stays far below \<open>2^31\<close> on any input
  shorter than 2 GiB, so it is an unbounded integer here.
\<close>

record Lexer =
  tokens :: "Token list"
  current_token_it :: nat
  global_indent_counter :: int

definition SPACES_PER_INDENT :: int where
  "SPACES_PER_INDENT = 2"

definition keywords_map :: "string \<Rightarrow> Token option" where
  "keywords_map = map_of
     [(''class'', Class_tok), (''return'', Return_tok), (''if'', If_tok), (''else'', Else_tok),
      (''def'', Def_tok), (''print'', Print_tok), (''and'', And_tok), (''or'', Or_tok),
      (''not'', Not_tok), (''None'', None_tok), (''True'', True_tok), (''False'', False_tok)]"

definition emplace_back :: "Token \<Rightarrow> Lexer \<Rightarrow> Lexer" where
  "emplace_back t L = L\<lparr>tokens := tokens L @ [t]\<rparr>"

text \<open>\<open>!tokens.empty() && !tokens.back().Is<Newline>()\<close>\<close>

definition needs_newline :: "Lexer \<Rightarrow> bool" where
  "needs_newline L \<longleftrightarrow> tokens L \<noteq> [] \<and> last (tokens L) \<noteq> Newline_tok"

subsection \<open>CurrentToken, NextToken\<close>

definition CurrentToken :: "Lexer \<Rightarrow> Token" where
  "CurrentToken L = tokens L ! current_token_it L"

definition NextToken :: "Lexer \<Rightarrow> Token \<times> Lexer" where
  "NextToken L =
     (if current_token_it L + 1 = length (tokens L) then (tokens L ! current_token_it L, L)
      else (tokens L ! (current_token_it L + 1),
            L\<lparr>current_token_it := current_token_it L + 1\<rparr>))"

subsection \<open>TrimSpaces\<close>

function TrimSpaces :: "istream \<Rightarrow> istream" where
  "TrimSpaces s =
     (case peek s of
        (Some c, s1) \<Rightarrow> if c = CHR '' '' then TrimSpaces (snd (get s1)) else s1
      | (None, s1) \<Rightarrow> s1)"
  by pat_completeness auto
termination
  by (relation "measure (\<lambda>s. length (buf s))") (auto simp: peek_def get_def good_def split: if_splits list.splits)

declare TrimSpaces.simps [simp del]

subsection \<open>ParseIndent\<close>

text \<open>\<open>std::to_string\<close> of an \<open>int\<close>.\<close>

fun digits_of_nat :: "nat \<Rightarrow> string" where
  "digits_of_nat n =
     (if n < 10 then [char_of (48 + n)]
      else digits_of_nat (n div 10) @ [char_of (48 + n mod 10)])"

declare digits_of_nat.simps [simp del]

definition to_string :: "int \<Rightarrow> string" where
  "to_string i = (if i < 0 then CHR ''-'' # digits_of_nat (nat (- i)) else digits_of_nat (nat i))"

text \<open>
  \<open>while (istr.get(ch) && (ch == ' ')) ++spaces_processed;\<close> The local \<open>ch\<close> starts
  uninitialised (\<open>None\<close>) and keeps its value when \<open>get\<close> fails.
\<close>

function ParseIndent_spaces :: "istream \<Rightarrow> char option \<Rightarrow> int \<Rightarrow> istream \<times> char option \<times> int" where
  "ParseIndent_spaces s ch spaces_processed =
     (case get s of
        (Some c, s1) \<Rightarrow>
          if c = CHR '' '' then ParseIndent_spaces s1 (Some c) (spaces_processed + 1)
          else (s1, Some c, spaces_processed)
      | (None, s1) \<Rightarrow> (s1, ch, spaces_processed))"
  by pat_completeness auto
termination
  by (relation "measure (\<lambda>(s, ch, n). length (buf s))") (auto simp: get_def split: if_splits list.splits)

declare ParseIndent_spaces.simps [simp del]

text \<open>The two inner loops of \<open>ParseIndent\<close>, on the remaining \<open>spaces_processed\<close>.\<close>

function ParseIndent_up :: "int \<Rightarrow> Lexer \<Rightarrow> Lexer" where
  "ParseIndent_up spaces_processed L =
     (if spaces_processed > 0
      then ParseIndent_up (spaces_processed - SPACES_PER_INDENT)
             ((emplace_back Indent_tok L)\<lparr>global_indent_counter := global_indent_counter L + 1\<rparr>)
      else L)"
  by pat_completeness auto
termination
  by (relation "measure (\<lambda>(n, L). nat n)") (auto simp: SPACES_PER_INDENT_def)

declare ParseIndent_up.simps [simp del]

function ParseIndent_down :: "int \<Rightarrow> Lexer \<Rightarrow> Lexer" where
  "ParseIndent_down spaces_processed L =
     (if spaces_processed > 0
      then ParseIndent_down (spaces_processed - SPACES_PER_INDENT)
             ((emplace_back Dedent_tok L)\<lparr>global_indent_counter := global_indent_counter L - 1\<rparr>)
      else L)"
  by pat_completeness auto
termination
  by (relation "measure (\<lambda>(n, L). nat n)") (auto simp: SPACES_PER_INDENT_def)

declare ParseIndent_down.simps [simp del]

text \<open>Lines 134 to 152: the comparison of the space count with the depth, and the check.\<close>

definition ParseIndent_adjust :: "istream \<Rightarrow> int \<Rightarrow> Lexer \<Rightarrow> failure + istream \<times> Lexer" where
  "ParseIndent_adjust s spaces_processed L =
     (let L1 =
        (if global_indent_counter L * SPACES_PER_INDENT < spaces_processed
         then ParseIndent_up (spaces_processed - global_indent_counter L * SPACES_PER_INDENT) L
         else if global_indent_counter L * SPACES_PER_INDENT > spaces_processed
         then ParseIndent_down (global_indent_counter L * SPACES_PER_INDENT - spaces_processed) L
         else L)
      in if global_indent_counter L1 < 0
         then Inl (LexerError (''ParseIndent() produced negative global indent: ''
                                 @ to_string (global_indent_counter L1)))
         else Inr (s, L1))"

definition ParseIndent :: "istream \<Rightarrow> Lexer \<Rightarrow> failure + istream \<times> Lexer" where
  "ParseIndent s L =
     (case peek s of
        (None, s0) \<Rightarrow> Inr (s0, L)
      | (Some p, s0) \<Rightarrow>
          (case ParseIndent_spaces s0 None 0 of
             (s1, ch, spaces_processed) \<Rightarrow>
               if \<not> rdstate_is_eofbit s1 then
                 (case ch of
                    None \<Rightarrow> Inl (undefined_behaviour ''ParseIndent: ch is read uninitialised'')
                  | Some c \<Rightarrow>
                      if c = CHR 0x0A then Inr (putback c s1, L)
                      else ParseIndent_adjust (putback c s1) spaces_processed L)
               else ParseIndent_adjust s1 spaces_processed L))"

subsection \<open>ParseString\<close>

text \<open>
  The loop \<open>while (istr.get(ch))\<close> of \<open>ParseString\<close>. It returns the stream, the last value
  of \<open>ch\<close> (\<open>None\<close> while uninitialised) and the literal read so far, or the exception
  thrown inside the loop.
\<close>

function ParseString_loop ::
  "char \<Rightarrow> istream \<Rightarrow> char option \<Rightarrow> string \<Rightarrow> failure + istream \<times> char option \<times> string" where
  "ParseString_loop open_char s ch result =
     (case get s of
        (None, s1) \<Rightarrow> Inr (s1, ch, result)
      | (Some c, s1) \<Rightarrow>
          if c = open_char then Inr (s1, Some c, result)
          else if c = CHR 0x5C then
            (case get s1 of
               (Some esc_ch, s2) \<Rightarrow>
                 if esc_ch = CHR ''n'' then ParseString_loop open_char s2 (Some c) (result @ [CHR 0x0A])
                 else if esc_ch = CHR ''t'' then ParseString_loop open_char s2 (Some c) (result @ [CHR 0x09])
                 else if esc_ch = CHR ''r'' then ParseString_loop open_char s2 (Some c) (result @ [CHR 0x0D])
                 else if esc_ch = CHR 0x22 then ParseString_loop open_char s2 (Some c) (result @ [CHR 0x22])
                 else if esc_ch = CHR 0x27 then ParseString_loop open_char s2 (Some c) (result @ [CHR 0x27])
                 else if esc_ch = CHR 0x5C then ParseString_loop open_char s2 (Some c) (result @ [CHR 0x5C])
                 else Inl (logic_error
                        (''ParseString() has encountered unknown escape sequence '' @ [CHR 0x5C, esc_ch]))
             | (None, s2) \<Rightarrow>
                 Inl (LexerError
                   ''ParseString() has encountered unexpected end of stream after a backslash''))
          else if c = CHR 0x0A \<or> c = CHR 0x0D then
            Inl (LexerError ''ParseString() has encountered NL or CR symbol within a string'')
          else ParseString_loop open_char s1 (Some c) (result @ [c]))"
  by pat_completeness auto
termination
  by (relation "measure (\<lambda>(oc, s, ch, r). length (buf s))")
     (auto simp: get_def split: if_splits list.splits)

declare ParseString_loop.simps [simp del]

text \<open>
  \<open>char open_char = istr.get()\<close> turns a failed \<open>get\<close> into the character \<open>char(EOF)\<close>,
  which is no quote.
\<close>

definition ParseString :: "istream \<Rightarrow> Lexer \<Rightarrow> failure + istream \<times> Lexer" where
  "ParseString s L =
     (case peek s of
        (None, s0) \<Rightarrow> Inr (s0, L)
      | (Some p, s0) \<Rightarrow>
          (case get s0 of
             (r, s1) \<Rightarrow>
               (let open_char = (case r of Some c \<Rightarrow> c | None \<Rightarrow> CHR 0xFF) in
                if open_char = CHR 0x27 \<or> open_char = CHR 0x22 then
                  (case ParseString_loop open_char s1 None [] of
                     Inl e \<Rightarrow> Inl e
                   | Inr (s2, ch, result) \<Rightarrow>
                       (case ch of
                          None \<Rightarrow> Inl (undefined_behaviour ''ParseString: ch is read uninitialised'')
                        | Some c \<Rightarrow>
                            if open_char = c then Inr (s2, emplace_back (String_tok result) L)
                            else Inl (LexerError
                              ''ParseString() has exited without find end-of-string character'')))
                else Inr (putback open_char s1, L))))"

subsection \<open>ParseKeywords\<close>

function ParseKeywords_loop :: "istream \<Rightarrow> string \<Rightarrow> istream \<times> string" where
  "ParseKeywords_loop s keyword =
     (case get s of
        (Some ch, s1) \<Rightarrow>
          if isalnum ch \<or> ch = CHR ''_'' then ParseKeywords_loop s1 (keyword @ [ch])
          else (putback ch s1, keyword)
      | (None, s1) \<Rightarrow> (s1, keyword))"
  by pat_completeness auto
termination
  by (relation "measure (\<lambda>(s, k). length (buf s))") (auto simp: get_def split: if_splits list.splits)

declare ParseKeywords_loop.simps [simp del]

text \<open>
  \<open>char ch = istr.peek()\<close> turns the end of input into \<open>char(EOF)\<close>, which is neither a
  letter nor an underscore.
\<close>

definition ParseKeywords :: "istream \<Rightarrow> Lexer \<Rightarrow> failure + istream \<times> Lexer" where
  "ParseKeywords s L =
     (case peek s of
        (None, s0) \<Rightarrow> Inr (s0, L)
      | (Some p, s0) \<Rightarrow>
          (case peek s0 of
             (pk, s1) \<Rightarrow>
               if (case pk of Some ch \<Rightarrow> isalpha ch \<or> ch = CHR ''_'' | None \<Rightarrow> False) then
                 (case ParseKeywords_loop s1 [] of
                    (s2, keyword) \<Rightarrow>
                      (case keywords_map keyword of
                         Some t \<Rightarrow> Inr (s2, emplace_back t L)
                       | None \<Rightarrow> Inr (s2, emplace_back (Id_tok keyword) L)))
               else Inr (s1, L)))"

subsection \<open>ParseComments, ParseChars\<close>

definition ParseComments :: "istream \<Rightarrow> istream" where
  "ParseComments s =
     (case peek s of
        (pk, s0) \<Rightarrow>
          if pk = Some CHR ''#'' then
            (case getline s0 of
               (tmp_str, s1) \<Rightarrow> if \<not> rdstate_is_eofbit s1 then putback CHR 0x0A s1 else s1)
          else s0)"

text \<open>
  One arm \<open>(ch == c) && (istr.peek() == '=')\<close> of \<open>ParseChars\<close>, entered when \<open>ch == c\<close>
  holds: the compound token when an equals sign follows, and otherwise the last arm,
  \<open>Char{ch}\<close> (no later arm can match, \<open>ch\<close> being \<open>c\<close>).
\<close>

definition ParseChars_compound :: "char \<Rightarrow> Token \<Rightarrow> istream \<Rightarrow> Lexer \<Rightarrow> istream \<times> Lexer" where
  "ParseChars_compound ch t s L =
     (case peek s of
        (pk, s1) \<Rightarrow>
          if pk = Some CHR ''='' then (snd (get s1), emplace_back t L)
          else (s1, emplace_back (Char_tok ch) L))"

definition ParseChars :: "istream \<Rightarrow> Lexer \<Rightarrow> failure + istream \<times> Lexer" where
  "ParseChars s L =
     (case peek s of
        (None, s0) \<Rightarrow> Inr (s0, L)
      | (Some p, s0) \<Rightarrow>
          (case get s0 of
             (None, s1) \<Rightarrow> Inl (undefined_behaviour ''ParseChars: ch is read uninitialised'')
           | (Some ch, s1) \<Rightarrow>
               if ispunct ch then
                 (if ch = CHR ''#'' then Inr (ParseComments (putback ch s1), L)
                  else if ch = CHR ''='' then Inr (ParseChars_compound ch Eq_tok s1 L)
                  else if ch = CHR ''!'' then Inr (ParseChars_compound ch NotEq_tok s1 L)
                  else if ch = CHR ''>'' then Inr (ParseChars_compound ch GreaterOrEq_tok s1 L)
                  else if ch = CHR ''<'' then Inr (ParseChars_compound ch LessOrEq_tok s1 L)
                  else Inr (s1, emplace_back (Char_tok ch) L))
               else Inr (putback ch s1, L)))"

subsection \<open>ParseNumbers\<close>

function ParseNumbers_loop :: "istream \<Rightarrow> string \<Rightarrow> istream \<times> string" where
  "ParseNumbers_loop s result =
     (case get s of
        (Some ch, s1) \<Rightarrow>
          if isdigit ch then ParseNumbers_loop s1 (result @ [ch])
          else (putback ch s1, result)
      | (None, s1) \<Rightarrow> (s1, result))"
  by pat_completeness auto
termination
  by (relation "measure (\<lambda>(s, k). length (buf s))") (auto simp: get_def split: if_splits list.splits)

declare ParseNumbers_loop.simps [simp del]

text \<open>
  \<open>std::stoi\<close> on a string of decimal digits: the value, or \<open>std::out_of_range\<close> when it
  does not fit an \<open>int\<close>. On the empty string it throws \<open>std::invalid_argument\<close>, which is
  a \<open>std::logic_error\<close>.
\<close>

definition stoi :: "string \<Rightarrow> failure + 32 word" where
  "stoi str =
     (if str = [] then Inl (logic_error ''stoi'')
      else (let n = foldl (\<lambda>a c. 10 * a + (of_char c - 48)) (0::nat) str
            in if n > 2147483647 then Inl (out_of_range ''stoi'') else Inr (of_nat n)))"

definition ParseNumbers :: "istream \<Rightarrow> Lexer \<Rightarrow> failure + istream \<times> Lexer" where
  "ParseNumbers s L =
     (case peek s of
        (None, s0) \<Rightarrow> Inr (s0, L)
      | (Some p, s0) \<Rightarrow>
          (case peek s0 of
             (pk, s1) \<Rightarrow>
               if (case pk of Some ch \<Rightarrow> isdigit ch | None \<Rightarrow> False) then
                 (case ParseNumbers_loop s1 [] of
                    (s2, result) \<Rightarrow>
                      (case stoi result of
                         Inl e \<Rightarrow> Inl e
                       | Inr num \<Rightarrow> Inr (s2, emplace_back (Number_tok num) L)))
               else Inr (s1, L)))"

subsection \<open>ParseNewLine\<close>

definition ParseNewLine :: "istream \<Rightarrow> Lexer \<Rightarrow> failure + istream \<times> Lexer" where
  "ParseNewLine s L =
     (case peek s of
        (pk, s0) \<Rightarrow>
          if pk = Some CHR 0x0A then
            ParseIndent (snd (get s0))
              (if needs_newline L then emplace_back Newline_tok L else L)
          else Inr (s0, L))"

subsection \<open>ParseInputStream and the constructor\<close>

text \<open>Sequencing: an exception of the first step skips the second.\<close>

definition and_then ::
  "failure + istream \<times> Lexer \<Rightarrow> (istream \<Rightarrow> Lexer \<Rightarrow> failure + istream \<times> Lexer)
     \<Rightarrow> failure + istream \<times> Lexer" where
  "and_then r f = (case r of Inl e \<Rightarrow> Inl e | Inr (s, L) \<Rightarrow> f s L)"

text \<open>The body of the loop \<open>while (istr)\<close>.\<close>

definition ParseInputStream_body :: "istream \<Rightarrow> Lexer \<Rightarrow> failure + istream \<times> Lexer" where
  "ParseInputStream_body s L =
     and_then (and_then (and_then (and_then (and_then
       (ParseString s L)
       ParseKeywords)
       ParseChars)
       ParseNumbers)
       (\<lambda>s L. Inr (TrimSpaces s, L)))
       ParseNewLine"

text \<open>
  The loop itself. It need not end: a character that no step consumes (a tab, say)
  leaves the stream as it was, for ever. \<open>None\<close> is the run that never returns.
\<close>

partial_function (option) ParseInputStream_loop ::
  "istream \<Rightarrow> Lexer \<Rightarrow> (failure + istream \<times> Lexer) option" where
  "ParseInputStream_loop s L =
     (if stream_ok s then
        (case ParseInputStream_body s L of
           Inl e \<Rightarrow> Some (Inl e)
         | Inr (s1, L1) \<Rightarrow> ParseInputStream_loop s1 L1)
      else Some (Inr (s, L)))"

declare ParseInputStream_loop.simps [code]

function ParseInputStream_dedent :: "Lexer \<Rightarrow> Lexer" where
  "ParseInputStream_dedent L =
     (if global_indent_counter L > 0
      then ParseInputStream_dedent
             ((emplace_back Dedent_tok L)\<lparr>global_indent_counter := global_indent_counter L - 1\<rparr>)
      else L)"
  by pat_completeness auto
termination
  by (relation "measure (\<lambda>L. nat (global_indent_counter L))") (auto simp: emplace_back_def)

declare ParseInputStream_dedent.simps [simp del]

definition ParseInputStream_finish :: "Lexer \<Rightarrow> Lexer" where
  "ParseInputStream_finish L =
     (let L1 = (if needs_newline L then emplace_back Newline_tok L else L);
          L2 = ParseInputStream_dedent L1
      in (emplace_back Eof_tok L2)\<lparr>current_token_it := 0\<rparr>)"

definition ParseInputStream :: "istream \<Rightarrow> Lexer \<Rightarrow> (failure + istream \<times> Lexer) option" where
  "ParseInputStream istr L =
     (case ParseInputStream_loop (TrimSpaces istr)
             (L\<lparr>tokens := [], current_token_it := 0, global_indent_counter := 0\<rparr>) of
        None \<Rightarrow> None
      | Some (Inl e) \<Rightarrow> Some (Inl e)
      | Some (Inr (s, L1)) \<Rightarrow> Some (Inr (s, ParseInputStream_finish L1)))"

text \<open>
  The constructor \<open>Lexer::Lexer(std::istream&)\<close>, on a stream holding \<open>src\<close>: the lexer
  it builds, the exception it throws, or \<open>None\<close> when it does not return.
\<close>

definition Lexer_Lexer :: "string \<Rightarrow> (failure + Lexer) option" where
  "Lexer_Lexer src =
     (case ParseInputStream (from_string src)
             \<lparr>tokens = [], current_token_it = 0, global_indent_counter = 0\<rparr> of
        None \<Rightarrow> None
      | Some (Inl e) \<Rightarrow> Some (Inl e)
      | Some (Inr (s, L)) \<Rightarrow> Some (Inr L))"

section \<open>The runtime (runtime.cpp)\<close>

subsection \<open>Classes and methods\<close>

text \<open>
  Modelled from the spec: \<open>Method\<close> is declared in runtime.h, which is not among the
  sources. It has a name, the names of its formal parameters and a body (the members
  \<open>name\<close>, \<open>formal_params\<close> and \<open>body\<close> that runtime.cpp reads). The body is run by the
  statement executor, which is not part of these sources: its type is the parameter
  \<open>'b\<close>.
\<close>

record 'b Method =
  name :: string
  formal_params :: "string list"
  body :: 'b

text \<open>
  Modelled from the spec: the members of \<open>Class\<close> are declared in runtime.h. They are
  the ones the constructor fills: \<open>name_\<close>, \<open>methods_\<close>, \<open>parent_\<close> (null or the parent
  class) and \<open>vftable_\<close>, from method names to the method records they point to.
\<close>

datatype 'b Class =
  Class (cls_name: string) (methods: "'b Method list") (parent: "'b Class option")
        (vftable: "string \<Rightarrow> 'b Method option")

text \<open>\<open>for (const auto& method : ms) table[method.name] = &method;\<close>\<close>

definition fill_vftable ::
  "'b Method list \<Rightarrow> (string \<Rightarrow> 'b Method option) \<Rightarrow> (string \<Rightarrow> 'b Method option)" where
  "fill_vftable ms table = fold (\<lambda>method t. t(name method \<mapsto> method)) ms table"

text \<open>The constructor \<open>Class::Class(name, methods, parent)\<close>.\<close>

definition Class_Class :: "string \<Rightarrow> 'b Method list \<Rightarrow> 'b Class option \<Rightarrow> 'b Class" where
  "Class_Class nm ms p =
     Class nm ms p
       (fill_vftable ms
          (case p of
             Some parent_class \<Rightarrow> fill_vftable (methods parent_class) Map.empty
           | None \<Rightarrow> Map.empty))"

definition GetMethod :: "'b Class \<Rightarrow> string \<Rightarrow> 'b Method option" where
  "GetMethod c nm = (case vftable c nm of Some m \<Rightarrow> Some m | None \<Rightarrow> None)"

text \<open>
  The lookup as the specification words it: the first definition of the name found
  scanning from the class toward the root of its chain of parents. Inside one class a
  later entry of \<open>methods_\<close> of the same name replaces an earlier one.
\<close>

fun first_override :: "'b Class \<Rightarrow> string \<Rightarrow> 'b Method option" where
  "first_override (Class nm ms p vt) m =
     (case find (\<lambda>x. name x = m) (rev ms) of
        Some x \<Rightarrow> Some x
      | None \<Rightarrow> (case p of Some parent_class \<Rightarrow> first_override parent_class m | None \<Rightarrow> None))"

subsection \<open>Values and handles\<close>

text \<open>
  Modelled from the spec: the kinds of \<open>Object\<close>, \<open>ObjectHolder\<close> and \<open>Closure\<close> are
  declared in runtime.h. The concrete kinds are \<open>Number\<close> (an \<open>int\<close>), \<open>String\<close>,
  \<open>Bool\<close>, \<open>Class\<close> and \<open>ClassInstance\<close>; a \<open>ClassInstance\<close> has its class and its
  fields. An \<open>ObjectHolder\<close> is empty (\<open>None\<close>) or holds an object; a \<open>Closure\<close> maps
  names to holders.
\<close>

datatype 'b Object =
    Number "32 word"
  | String string
  | Bool bool
  | ClassObject "'b Class"
  | InstanceObject "'b ClassInstance"
and 'b ClassInstance =
    ClassInstance (cls: "'b Class") (fields: "(string \<times> 'b Object option) list")

type_synonym 'b ObjectHolder = "'b Object option"

type_synonym 'b Closure = "string \<Rightarrow> 'b ObjectHolder option"

text \<open>
  Modelled from the spec: \<open>ObjectHolder::TryAs<K>\<close> is declared in runtime.h, which is not
  among the sources. It is the downcast to a concrete kind, null when the handle is
  empty or its object is of another kind.
\<close>

definition TryAs_Number :: "'b ObjectHolder \<Rightarrow> 32 word option" where
  "TryAs_Number h = (case h of Some (Number v) \<Rightarrow> Some v | _ \<Rightarrow> None)"

definition TryAs_String :: "'b ObjectHolder \<Rightarrow> string option" where
  "TryAs_String h = (case h of Some (String v) \<Rightarrow> Some v | _ \<Rightarrow> None)"

definition TryAs_Bool :: "'b ObjectHolder \<Rightarrow> bool option" where
  "TryAs_Bool h = (case h of Some (Bool v) \<Rightarrow> Some v | _ \<Rightarrow> None)"

definition TryAs_ClassInstance :: "'b ObjectHolder \<Rightarrow> 'b ClassInstance option" where
  "TryAs_ClassInstance h = (case h of Some (InstanceObject i) \<Rightarrow> Some i | _ \<Rightarrow> None)"

text \<open>\<open>operator<\<close> of \<open>std::string\<close>: lexicographic on the bytes, a proper prefix first.\<close>

fun string_less :: "string \<Rightarrow> string \<Rightarrow> bool" where
  "string_less [] [] = False"
| "string_less [] (y # ys) = True"
| "string_less (x # xs) [] = False"
| "string_less (x # xs) (y # ys) =
     (if (of_char x :: nat) < of_char y then True
      else if (of_char y :: nat) < of_char x then False
      else string_less xs ys)"

subsection \<open>HasMethod, Call\<close>

text \<open>
  \<open>Executable::Execute(closure, context)\<close> belongs to the statement executor. An executor
  is a function from a body, a closure and a context to the handle it returns or the
  exception it throws, and the context it leaves.
\<close>

type_synonym ('b, 'c) executor = "'b \<Rightarrow> 'b Closure \<Rightarrow> 'c \<Rightarrow> (failure + 'b ObjectHolder) \<times> 'c"

definition HasMethod :: "'b ClassInstance \<Rightarrow> string \<Rightarrow> nat \<Rightarrow> bool" where
  "HasMethod inst method argument_count =
     (case GetMethod (cls inst) method of
        Some method_ptr \<Rightarrow> length (formal_params method_ptr) = argument_count
      | None \<Rightarrow> False)"

definition Call ::
  "('b, 'c) executor \<Rightarrow> 'b ClassInstance \<Rightarrow> string \<Rightarrow> 'b ObjectHolder list \<Rightarrow> 'c
     \<Rightarrow> (failure + 'b ObjectHolder) \<times> 'c" where
  "Call exec inst method actual_args context =
     (if HasMethod inst method (length actual_args) then
        (case GetMethod (cls inst) method of
           Some method_ptr \<Rightarrow>
             exec (body method_ptr)
               (fold (\<lambda>(arg, actual) closure. closure(arg \<mapsto> actual))
                  (zip (formal_params method_ptr) actual_args)
                  [''self'' \<mapsto> Some (InstanceObject inst)])
               context
         | None \<Rightarrow> (Inl (undefined_behaviour ''Call: null method pointer''), context))
      else (Inl (runtime_error ''Call for a not defined method''), context))"

subsection \<open>Comparisons\<close>

text \<open>
  \<open>result.TryAs<Bool>()->GetValue()\<close>: the value of the \<open>Bool\<close> the handle holds; on any
  other handle the downcast is null and the call dereferences it.
\<close>

definition Bool_of_result :: "'b ObjectHolder \<Rightarrow> 'c \<Rightarrow> (failure + bool) \<times> 'c" where
  "Bool_of_result result context =
     (case TryAs_Bool result of
        Some v \<Rightarrow> (Inr v, context)
      | None \<Rightarrow> (Inl (undefined_behaviour ''null pointer dereference''), context))"

definition Equal ::
  "('b, 'c) executor \<Rightarrow> 'b ObjectHolder \<Rightarrow> 'b ObjectHolder \<Rightarrow> 'c \<Rightarrow> (failure + bool) \<times> 'c" where
  "Equal exec lhs rhs context =
     (if lhs = None \<and> rhs = None then (Inr True, context)
      else (case (TryAs_Number lhs, TryAs_Number rhs) of
        (Some l, Some r) \<Rightarrow> (Inr (l = r), context)
      | _ \<Rightarrow> (case (TryAs_String lhs, TryAs_String rhs) of
        (Some l, Some r) \<Rightarrow> (Inr (l = r), context)
      | _ \<Rightarrow> (case (TryAs_Bool lhs, TryAs_Bool rhs) of
        (Some l, Some r) \<Rightarrow> (Inr (l = r), context)
      | _ \<Rightarrow> (case TryAs_ClassInstance lhs of
        Some lhs_ptr \<Rightarrow>
          if HasMethod lhs_ptr ''__eq__'' 1 then
            (case Call exec lhs_ptr ''__eq__'' [rhs] context of
               (Inl e, c1) \<Rightarrow> (Inl e, c1)
             | (Inr result, c1) \<Rightarrow> Bool_of_result result c1)
          else (Inl (runtime_error ''Cannot compare objects for equality''), context)
      | None \<Rightarrow> (Inl (runtime_error ''Cannot compare objects for equality''), context))))))"

definition Less ::
  "('b, 'c) executor \<Rightarrow> 'b ObjectHolder \<Rightarrow> 'b ObjectHolder \<Rightarrow> 'c \<Rightarrow> (failure + bool) \<times> 'c" where
  "Less exec lhs rhs context =
     (case (TryAs_Number lhs, TryAs_Number rhs) of
        (Some l, Some r) \<Rightarrow> (Inr (sint l < sint r), context)
      | _ \<Rightarrow> (case (TryAs_String lhs, TryAs_String rhs) of
        (Some l, Some r) \<Rightarrow> (Inr (string_less l r), context)
      | _ \<Rightarrow> (case (TryAs_Bool lhs, TryAs_Bool rhs) of
        (Some l, Some r) \<Rightarrow> (Inr (l < r), context)
      | _ \<Rightarrow> (case TryAs_ClassInstance lhs of
        Some lhs_ptr \<Rightarrow>
          if HasMethod lhs_ptr ''__lt__'' 1 then
            (case Call exec lhs_ptr ''__lt__'' [rhs] context of
               (Inl e, c1) \<Rightarrow> (Inl e, c1)
             | (Inr result, c1) \<Rightarrow> Bool_of_result result c1)
          else (Inl (runtime_error ''Cannot compare objects for less''), context)
      | None \<Rightarrow> (Inl (runtime_error ''Cannot compare objects for less''), context)))))"

text \<open>\<open>!(Less(lhs, rhs, context) || Equal(lhs, rhs, context))\<close>, with the short circuit.\<close>

definition Greater ::
  "('b, 'c) executor \<Rightarrow> 'b ObjectHolder \<Rightarrow> 'b ObjectHolder \<Rightarrow> 'c \<Rightarrow> (failure + bool) \<times> 'c" where
  "Greater exec lhs rhs context =
     (case Less exec lhs rhs context of
        (Inl e, c1) \<Rightarrow> (Inl e, c1)
      | (Inr is_less, c1) \<Rightarrow>
          if is_less then (Inr False, c1)
          else (case Equal exec lhs rhs c1 of
                  (Inl e, c2) \<Rightarrow> (Inl e, c2)
                | (Inr is_equal, c2) \<Rightarrow> (Inr (\<not> is_equal), c2)))"

subsection \<open>Bodies for examples\<close>

text \<open>
  A body that returns a fixed handle and leaves the context alone, and the executor that
  runs such bodies; the context is a counter of the bodies run.
\<close>

datatype fixed_body = Return_Bool bool | Return_Number "32 word" | Return_None

fun run_fixed_body :: "(fixed_body, nat) executor" where
  "run_fixed_body (Return_Bool v) closure context = (Inr (Some (Bool v)), Suc context)"
| "run_fixed_body (Return_Number v) closure context = (Inr (Some (Number v)), Suc context)"
| "run_fixed_body Return_None closure context = (Inr None, Suc context)"

section \<open>The depth invariant of the lexer\<close>

text \<open>
  The tokens that do not touch the depth, the excess of \<open>Indent\<close> over \<open>Dedent\<close> tokens
  in a token list, and what every step of \<open>ParseInputStream\<close> keeps true of the lexer:
  no \<open>Eof\<close> is in the vector yet, the depth is the excess of \<open>Indent\<close> over
  \<open>Dedent\<close> tokens, and no prefix of the vector has more \<open>Dedent\<close> than \<open>Indent\<close> tokens.
\<close>

definition plain :: "Token \<Rightarrow> bool" where
  "plain t \<longleftrightarrow> t \<noteq> Indent_tok \<and> t \<noteq> Dedent_tok \<and> t \<noteq> Eof_tok"

definition balance :: "Token list \<Rightarrow> int" where
  "balance ts = int (count_list ts Indent_tok) - int (count_list ts Dedent_tok)"

definition nonneg_prefixes :: "Token list \<Rightarrow> bool" where
  "nonneg_prefixes ts \<longleftrightarrow> (\<forall>n. 0 \<le> balance (take n ts))"

definition lexer_inv :: "Lexer \<Rightarrow> bool" where
  "lexer_inv L \<longleftrightarrow>
     Eof_tok \<notin> set (tokens L) \<and> global_indent_counter L = balance (tokens L) \<and>
     nonneg_prefixes (tokens L)"


section \<open>Properties of the lexer\<close>

lemmas lexer_loops =
  ParseInputStream_loop.simps TrimSpaces.simps ParseIndent_spaces.simps ParseIndent_up.simps
  ParseIndent_down.simps ParseString_loop.simps ParseKeywords_loop.simps ParseNumbers_loop.simps
  ParseInputStream_dedent.simps

lemmas lexer_defs =
  Lexer_Lexer_def ParseInputStream_def ParseInputStream_finish_def ParseInputStream_body_def
  and_then_def ParseNewLine_def ParseNumbers_def stoi_def ParseChars_def ParseChars_compound_def
  ParseComments_def ParseKeywords_def ParseString_def ParseIndent_def ParseIndent_adjust_def
  needs_newline_def emplace_back_def keywords_map_def SPACES_PER_INDENT_def isalpha_def
  isdigit_def isalnum_def ispunct_def getline_def putback_def get_def peek_def
  rdstate_is_eofbit_def stream_ok_def good_def from_string_def

subsection \<open>The scenarios of the specification\<close>

text \<open>
  The three lexer scenarios of the specification that have no indentation: an
  assignment, a string literal with an escaped newline, and compound operators.
\<close>

lemma scenario_assignment:
  "Lexer_Lexer (''x = 42'' @ [CHR 0x0A]) =
     Some (Inr \<lparr>tokens = [Id_tok ''x'', Char_tok CHR ''='', Number_tok 42, Newline_tok, Eof_tok],
                 current_token_it = 0, global_indent_counter = 0\<rparr>)"
  by (simp add: lexer_loops lexer_defs)

lemma scenario_escape:
  "Lexer_Lexer (''s = '' @ [CHR 0x22] @ ''a'' @ [CHR 0x5C] @ ''nb'' @ [CHR 0x22, CHR 0x0A]) =
     Some (Inr \<lparr>tokens = [Id_tok ''s'', Char_tok CHR ''='',
                           String_tok [CHR ''a'', CHR 0x0A, CHR ''b''], Newline_tok, Eof_tok],
                 current_token_it = 0, global_indent_counter = 0\<rparr>)"
  by (simp add: lexer_loops lexer_defs)

lemma scenario_compound:
  "Lexer_Lexer (''a <= b != c'' @ [CHR 0x0A]) =
     Some (Inr \<lparr>tokens = [Id_tok ''a'', LessOrEq_tok, Id_tok ''b'', NotEq_tok, Id_tok ''c'',
                           Newline_tok, Eof_tok],
                 current_token_it = 0, global_indent_counter = 0\<rparr>)"
  by (simp add: lexer_loops lexer_defs)

subsection \<open>Escape sequences\<close>

text \<open>
  Claim C3 says that a backslash followed by a character that is no recognised escape, inside a
  string literal makes the construction fail with \<open>LexerError\<close> and no other kind of
  exception. On the input \<open>s = "\q"\<close> the constructor throws \<open>std::logic_error\<close>, which
  is not a \<open>LexerError\<close> (nor a \<open>std::runtime_error\<close>); the neighbouring failure of the
  same loop, the end of input after the backslash, throws \<open>LexerError\<close>.
\<close>

theorem C3_unknown_escape_throws_logic_error:
  "Lexer_Lexer (''s = '' @ [CHR 0x22, CHR 0x5C, CHR ''q'', CHR 0x22]) =
     Some (Inl (logic_error
       (''ParseString() has encountered unknown escape sequence '' @ [CHR 0x5C, CHR ''q''])))
   \<and> Lexer_Lexer (''s = '' @ [CHR 0x22, CHR 0x5C]) =
     Some (Inl (LexerError
       ''ParseString() has encountered unexpected end of stream after a backslash''))"
  by (simp add: lexer_loops lexer_defs)

subsection \<open>Blank lines and comment lines\<close>

text \<open>
  Claim C5 says that a line holding only spaces, or only a comment after optional
  spaces, emits no \<open>Indent\<close>, \<open>Dedent\<close> or \<open>Newline\<close> and leaves the depth alone, whatever
  its leading space count. \<open>ParseIndent\<close> returns early on a line of spaces ended by a
  newline, and not on a comment line: between the lines \<open>x\<close> and \<open>y\<close>, the line of two
  spaces and a comment emits \<open>Indent\<close>, \<open>Newline\<close> and \<open>Dedent\<close>, where the line of two
  spaces alone emits nothing.
\<close>

theorem C5_comment_line_changes_depth:
  "Lexer_Lexer (''x'' @ [CHR 0x0A] @ ''  # c'' @ [CHR 0x0A] @ ''y'' @ [CHR 0x0A]) =
     Some (Inr \<lparr>tokens = [Id_tok ''x'', Newline_tok, Indent_tok, Newline_tok, Dedent_tok,
                           Id_tok ''y'', Newline_tok, Eof_tok],
                 current_token_it = 0, global_indent_counter = 0\<rparr>)
   \<and> Lexer_Lexer (''x'' @ [CHR 0x0A] @ ''  '' @ [CHR 0x0A] @ ''y'' @ [CHR 0x0A]) =
     Some (Inr \<lparr>tokens = [Id_tok ''x'', Newline_tok, Id_tok ''y'', Newline_tok, Eof_tok],
                 current_token_it = 0, global_indent_counter = 0\<rparr>)"
  by (simp add: lexer_loops lexer_defs)

subsection \<open>Spaces at the start of the input\<close>

text \<open>
  Claim C8, as the specification states it, fails: an input whose first line begins with
  spaces before a token is not rejected. On two spaces and \<open>x\<close> the constructor returns
  the tokens \<open>Id x\<close>, \<open>Newline\<close>, \<open>Eof\<close>.
\<close>

theorem C8_indented_first_line_accepted_counterexample:
  "Lexer_Lexer ''  x'' =
     Some (Inr \<lparr>tokens = [Id_tok ''x'', Newline_tok, Eof_tok],
                 current_token_it = 0, global_indent_counter = 0\<rparr>)"
  by (simp add: lexer_loops lexer_defs)

lemma TrimSpaces_leading:
  "TrimSpaces (from_string (replicate n CHR '' '' @ src)) = TrimSpaces (from_string src)"
proof (induction n)
  case 0
  show ?case by simp
next
  case (Suc n)
  have "TrimSpaces (from_string (replicate (Suc n) CHR '' '' @ src)) =
        TrimSpaces (from_string (replicate n CHR '' '' @ src))"
    by (subst TrimSpaces.simps) (simp add: peek_def get_def good_def from_string_def)
  then show ?case using Suc.IH by simp
qed

text \<open>
  Claim C8, amended: \<open>ParseInputStream\<close> begins with \<open>TrimSpaces\<close>, so the spaces that
  begin the first line are skipped, and the constructor does on the input exactly what
  it does on the input without them: no \<open>Indent\<close> and no \<open>LexerError\<close> comes of them.
\<close>

theorem C8_leading_spaces_skipped:
  "Lexer_Lexer (replicate n CHR '' '' @ src) = Lexer_Lexer src"
  by (simp add: Lexer_Lexer_def ParseInputStream_def TrimSpaces_leading)

subsection \<open>The cursor\<close>

lemma Lexer_Lexer_tokens:
  assumes "Lexer_Lexer src = Some (Inr L)"
  shows "current_token_it L = 0 \<and> tokens L \<noteq> [] \<and> last (tokens L) = Eof_tok"
  using assms
  by (auto simp: Lexer_Lexer_def ParseInputStream_def ParseInputStream_finish_def emplace_back_def Let_def
      split: option.splits sum.splits prod.splits)

lemma NextToken_iter:
  "tokens (((\<lambda>L. snd (NextToken L)) ^^ n) L0) = tokens L0 \<and>
   (current_token_it L0 < length (tokens L0) \<longrightarrow>
      current_token_it (((\<lambda>L. snd (NextToken L)) ^^ n) L0) < length (tokens L0))"
  by (induction n) (auto simp: NextToken_def)

text \<open>
  Claim C9: on a lexer built by the constructor and moved by any number of calls of
  \<open>NextToken\<close>, a further call either moves the cursor one token on and returns the token
  now under it, or, the cursor being on the last token, leaves the lexer as it is and
  returns that token, which is \<open>Eof\<close>; so the calls at the end all return \<open>Eof\<close>.
\<close>

theorem C9_NextToken:
  assumes "Lexer_Lexer src = Some (Inr L0)"
    and "L = ((\<lambda>L. snd (NextToken L)) ^^ n) L0"
  shows "(current_token_it L + 1 < length (tokens L) \<longrightarrow>
            NextToken L = (tokens L ! (current_token_it L + 1),
                           L\<lparr>current_token_it := current_token_it L + 1\<rparr>))
       \<and> (\<not> current_token_it L + 1 < length (tokens L) \<longrightarrow>
            current_token_it L + 1 = length (tokens L) \<and>
            NextToken L = (Eof_tok, L) \<and> CurrentToken L = Eof_tok)"
proof -
  have t: "tokens L = tokens L0" and c: "current_token_it L < length (tokens L0)"
    using NextToken_iter [of n L0] Lexer_Lexer_tokens [OF assms(1)] assms(2) by auto
  have e: "tokens L0 \<noteq> []" "last (tokens L0) = Eof_tok"
    using Lexer_Lexer_tokens [OF assms(1)] by auto
  have last: "current_token_it L + 1 = length (tokens L0) \<Longrightarrow> tokens L0 ! current_token_it L = Eof_tok"
  proof -
    assume "current_token_it L + 1 = length (tokens L0)"
    then have "current_token_it L = length (tokens L0) - 1" by simp
    then show ?thesis using e by (simp add: last_conv_nth)
  qed
  have step: "\<not> current_token_it L + 1 < length (tokens L) \<Longrightarrow> current_token_it L + 1 = length (tokens L0)"
    using t c by simp
  show ?thesis
    using t last step by (auto simp: NextToken_def CurrentToken_def)
qed

text \<open>
  Claim C9 on the lexer of the input \<open>x\<close>, at its first and at its last token.
\<close>

theorem C9_NextToken_witness:
  "Lexer_Lexer ''x'' = Some (Inr \<lparr>tokens = [Id_tok ''x'', Newline_tok, Eof_tok],
                 current_token_it = 0, global_indent_counter = 0\<rparr>)
   \<and> NextToken \<lparr>tokens = [Id_tok ''x'', Newline_tok, Eof_tok],
                 current_token_it = 0, global_indent_counter = 0\<rparr>
       = (Newline_tok, \<lparr>tokens = [Id_tok ''x'', Newline_tok, Eof_tok],
                 current_token_it = 1, global_indent_counter = 0\<rparr>)
   \<and> NextToken \<lparr>tokens = [Id_tok ''x'', Newline_tok, Eof_tok],
                 current_token_it = 2, global_indent_counter = 0\<rparr>
       = (Eof_tok, \<lparr>tokens = [Id_tok ''x'', Newline_tok, Eof_tok],
                 current_token_it = 2, global_indent_counter = 0\<rparr>)"
proof -
  let ?L0 = "\<lparr>tokens = [Id_tok ''x'', Newline_tok, Eof_tok],
                 current_token_it = 0, global_indent_counter = 0\<rparr>"
  let ?L2 = "\<lparr>tokens = [Id_tok ''x'', Newline_tok, Eof_tok],
                 current_token_it = 2, global_indent_counter = 0\<rparr>"
  have c: "Lexer_Lexer ''x'' = Some (Inr ?L0)"
    by (simp add: lexer_loops lexer_defs)
  have 0: "?L0 = ((\<lambda>L. snd (NextToken L)) ^^ 0) ?L0"
    by simp
  have 2: "?L2 = ((\<lambda>L. snd (NextToken L)) ^^ Suc (Suc 0)) ?L0"
    by (simp add: NextToken_def)
  show ?thesis
    using c C9_NextToken [OF c 0] C9_NextToken [OF c 2] by simp
qed

subsection \<open>The loops of ParseIndent\<close>


lemma ParseIndent_up_result:
  "ParseIndent_up sp L =
     L\<lparr>tokens := tokens L @ replicate (nat ((sp + 1) div 2)) Indent_tok,
        global_indent_counter := global_indent_counter L + int (nat ((sp + 1) div 2))\<rparr>"
proof (induction sp L rule: ParseIndent_up.induct)
  case (1 sp L)
  show ?case
  proof (cases "sp > 0")
    case True
    have n: "nat ((sp + 1) div 2) = Suc (nat ((sp - 2 + 1) div 2))"
      using True by linarith
    show ?thesis
      using True 1 [OF True]
      by (subst ParseIndent_up.simps)
         (simp add: n emplace_back_def SPACES_PER_INDENT_def replicate_append_same)
  next
    case False
    then have "nat ((sp + 1) div 2) = 0" by linarith
    then show ?thesis using False
      by (subst ParseIndent_up.simps) simp
  qed
qed

lemma ParseIndent_down_result:
  "ParseIndent_down sp L =
     L\<lparr>tokens := tokens L @ replicate (nat ((sp + 1) div 2)) Dedent_tok,
        global_indent_counter := global_indent_counter L - int (nat ((sp + 1) div 2))\<rparr>"
proof (induction sp L rule: ParseIndent_down.induct)
  case (1 sp L)
  show ?case
  proof (cases "sp > 0")
    case True
    have n: "nat ((sp + 1) div 2) = Suc (nat ((sp - 2 + 1) div 2))"
      using True by linarith
    show ?thesis
      using True 1 [OF True]
      by (subst ParseIndent_down.simps)
         (simp add: n emplace_back_def SPACES_PER_INDENT_def replicate_append_same)
  next
    case False
    then have "nat ((sp + 1) div 2) = 0" by linarith
    then show ?thesis using False
      by (subst ParseIndent_down.simps) simp
  qed
qed

subsection \<open>The depth invariant of the token vector\<close>

lemma balance_snoc:
  "balance (ts @ [t]) =
     balance ts + (if t = Indent_tok then 1 else if t = Dedent_tok then - 1 else 0)"
  by (simp add: balance_def)

lemma prefixes_snoc:
  "nonneg_prefixes (ts @ [t]) \<longleftrightarrow> nonneg_prefixes ts \<and> 0 \<le> balance (ts @ [t])"
  unfolding nonneg_prefixes_def
proof
  assume a: "\<forall>n. 0 \<le> balance (take n (ts @ [t]))"
  have "\<And>n. 0 \<le> balance (take n ts)"
  proof -
    fix n
    have "take (min n (length ts)) (ts @ [t]) = take n ts" by (simp add: min_def)
    then show "0 \<le> balance (take n ts)" using a [rule_format, of "min n (length ts)"] by simp
  qed
  moreover have "0 \<le> balance (ts @ [t])" using a [rule_format, of "Suc (length ts)"] by simp
  ultimately show "(\<forall>n. 0 \<le> balance (take n ts)) \<and> 0 \<le> balance (ts @ [t])" by simp
next
  assume a: "(\<forall>n. 0 \<le> balance (take n ts)) \<and> 0 \<le> balance (ts @ [t])"
  show "\<forall>n. 0 \<le> balance (take n (ts @ [t]))"
  proof
    fix n
    show "0 \<le> balance (take n (ts @ [t]))"
    proof (cases "n \<le> length ts")
      case True
      then show ?thesis using a by simp
    next
      case False
      then have "take n (ts @ [t]) = ts @ [t]" by simp
      then show ?thesis using a by simp
    qed
  qed
qed

lemma lexer_inv_balance_nonneg: "lexer_inv L \<Longrightarrow> 0 \<le> global_indent_counter L"
proof -
  assume a: "lexer_inv L"
  then have "0 \<le> balance (take (length (tokens L)) (tokens L))"
    unfolding lexer_inv_def nonneg_prefixes_def by blast
  then show ?thesis using a by (simp add: lexer_inv_def)
qed

lemma lexer_inv_plain:
  "lexer_inv L \<Longrightarrow> plain t \<Longrightarrow> lexer_inv (emplace_back t L)"
  using lexer_inv_balance_nonneg [of L]
  by (auto simp add: lexer_inv_def emplace_back_def prefixes_snoc balance_snoc plain_def)

lemma lexer_inv_Indent:
  "lexer_inv L \<Longrightarrow>
   lexer_inv ((emplace_back Indent_tok L)\<lparr>global_indent_counter := global_indent_counter L + 1\<rparr>)"
  using lexer_inv_balance_nonneg [of L]
  by (simp add: lexer_inv_def emplace_back_def prefixes_snoc balance_snoc)

lemma lexer_inv_Dedent:
  "lexer_inv L \<Longrightarrow> 0 < global_indent_counter L \<Longrightarrow>
   lexer_inv ((emplace_back Dedent_tok L)\<lparr>global_indent_counter := global_indent_counter L - 1\<rparr>)"
  by (simp add: lexer_inv_def emplace_back_def prefixes_snoc balance_snoc)

lemma ParseIndent_up_inv: "lexer_inv L \<Longrightarrow> lexer_inv (ParseIndent_up sp L)"
proof (induction sp L rule: ParseIndent_up.induct)
  case (1 sp L)
  show ?case
  proof (cases "sp > 0")
    case True
    then show ?thesis
      using 1 by (subst ParseIndent_up.simps) (simp add: lexer_inv_Indent)
  next
    case False
    then show ?thesis using 1 by (subst ParseIndent_up.simps) simp
  qed
qed

lemma ParseIndent_down_inv:
  "lexer_inv L \<Longrightarrow> sp \<le> 2 * global_indent_counter L \<Longrightarrow> lexer_inv (ParseIndent_down sp L)"
proof (induction sp L rule: ParseIndent_down.induct)
  case (1 sp L)
  show ?case
  proof (cases "sp > 0")
    case True
    have "lexer_inv ((emplace_back Dedent_tok L)\<lparr>global_indent_counter := global_indent_counter L - 1\<rparr>)"
      using True 1(2,3) by (intro lexer_inv_Dedent) auto
    then show ?thesis
      using True 1(1) [OF True] 1(3)
      by (subst ParseIndent_down.simps) (simp add: SPACES_PER_INDENT_def emplace_back_def)
  next
    case False
    then show ?thesis using 1 by (subst ParseIndent_down.simps) simp
  qed
qed

lemma ParseIndent_spaces_nonneg:
  "ParseIndent_spaces s ch k = (s', ch', k') \<Longrightarrow> 0 \<le> k \<Longrightarrow> 0 \<le> k'"
proof (induction s ch k rule: ParseIndent_spaces.induct)
  case (1 s ch k)
  show ?case
    using "1.prems" "1.IH"
    by (subst (asm) ParseIndent_spaces.simps) (auto split: prod.splits option.splits if_splits)
qed

lemma ParseIndent_adjust_inv:
  "lexer_inv L \<Longrightarrow> 0 \<le> sp \<Longrightarrow> ParseIndent_adjust s sp L = Inr (s', L') \<Longrightarrow> lexer_inv L'"
  by (auto simp: ParseIndent_adjust_def Let_def SPACES_PER_INDENT_def ParseIndent_up_inv
        ParseIndent_down_inv split: if_splits)

lemma ParseIndent_inv:
  "lexer_inv L \<Longrightarrow> ParseIndent s L = Inr (s', L') \<Longrightarrow> lexer_inv L'"
  by (auto simp: ParseIndent_def split: prod.splits option.splits if_splits
      dest: ParseIndent_spaces_nonneg ParseIndent_adjust_inv)

lemma Newline_plain: "plain Newline_tok"
  by (simp add: plain_def)

lemma ParseNewLine_inv:
  "lexer_inv L \<Longrightarrow> ParseNewLine s L = Inr (s', L') \<Longrightarrow> lexer_inv L'"
  by (auto simp: ParseNewLine_def lexer_inv_plain Newline_plain split: prod.splits if_splits
      dest!: ParseIndent_inv [rotated])

lemma ParseString_inv:
  "lexer_inv L \<Longrightarrow> ParseString s L = Inr (s', L') \<Longrightarrow> lexer_inv L'"
  by (auto simp: ParseString_def Let_def lexer_inv_plain plain_def
      split: prod.splits option.splits if_splits sum.splits)

lemma keywords_map_plain: "keywords_map k = Some t \<Longrightarrow> plain t"
  by (auto simp: keywords_map_def plain_def split: if_splits)

lemma ParseKeywords_inv:
  "lexer_inv L \<Longrightarrow> ParseKeywords s L = Inr (s', L') \<Longrightarrow> lexer_inv L'"
  by (auto simp: ParseKeywords_def lexer_inv_plain plain_def
      split: prod.splits option.splits if_splits dest: keywords_map_plain)

lemma ParseChars_inv:
  "lexer_inv L \<Longrightarrow> ParseChars s L = Inr (s', L') \<Longrightarrow> lexer_inv L'"
  by (auto simp: ParseChars_def ParseChars_compound_def lexer_inv_plain plain_def
      split: prod.splits option.splits if_splits)

lemma ParseNumbers_inv:
  "lexer_inv L \<Longrightarrow> ParseNumbers s L = Inr (s', L') \<Longrightarrow> lexer_inv L'"
  by (auto simp: ParseNumbers_def lexer_inv_plain plain_def
      split: prod.splits option.splits if_splits sum.splits)

lemma and_then_Inr:
  "and_then r f = Inr x \<Longrightarrow> \<exists>s L. r = Inr (s, L) \<and> f s L = Inr x"
  by (auto simp: and_then_def split: sum.splits)

lemma ParseInputStream_body_inv:
  assumes "lexer_inv L" and "ParseInputStream_body s L = Inr (s', L')"
  shows "lexer_inv L'"
proof -
  from assms(2) obtain s5 L5 where
    5: "and_then (and_then (and_then (and_then (ParseString s L) ParseKeywords) ParseChars)
          ParseNumbers) (\<lambda>s L. Inr (TrimSpaces s, L)) = Inr (s5, L5)"
    and n: "ParseNewLine s5 L5 = Inr (s', L')"
    unfolding ParseInputStream_body_def by (blast dest: and_then_Inr)
  from 5 obtain s4 L4 where
    4: "and_then (and_then (and_then (ParseString s L) ParseKeywords) ParseChars)
          ParseNumbers = Inr (s4, L4)"
    and t: "Inr (TrimSpaces s4, L4) = (Inr (s5, L5) :: failure + istream \<times> Lexer)"
    by (blast dest: and_then_Inr)
  from 4 obtain s3 L3 where
    3: "and_then (and_then (ParseString s L) ParseKeywords) ParseChars = Inr (s3, L3)"
    and nu: "ParseNumbers s3 L3 = Inr (s4, L4)"
    by (blast dest: and_then_Inr)
  from 3 obtain s2 L2 where
    2: "and_then (ParseString s L) ParseKeywords = Inr (s2, L2)"
    and ch: "ParseChars s2 L2 = Inr (s3, L3)"
    by (blast dest: and_then_Inr)
  from 2 obtain s1 L1 where
    1: "ParseString s L = Inr (s1, L1)"
    and kw: "ParseKeywords s1 L1 = Inr (s2, L2)"
    by (blast dest: and_then_Inr)
  have "lexer_inv L1" using assms(1) 1 by (rule ParseString_inv)
  then have "lexer_inv L2" using kw by (rule ParseKeywords_inv)
  then have "lexer_inv L3" using ch by (rule ParseChars_inv)
  then have "lexer_inv L4" using nu by (rule ParseNumbers_inv)
  then have "lexer_inv L5" using t by simp
  then show ?thesis using n by (rule ParseNewLine_inv)
qed

lemma ParseInputStream_loop_inv:
  assumes run: "ParseInputStream_loop s L = Some r"
  shows "lexer_inv L \<longrightarrow> (\<forall>s' L'. r = Inr (s', L') \<longrightarrow> lexer_inv L')"
proof (rule ParseInputStream_loop.raw_induct
    [where P = "\<lambda>s L r. lexer_inv L \<longrightarrow> (\<forall>s' L'. r = Inr (s', L') \<longrightarrow> lexer_inv L')"])
  show "ParseInputStream_loop s L = Some r" by (rule run)
next
  fix loop :: "istream \<Rightarrow> Lexer \<Rightarrow> (failure + istream \<times> Lexer) option"
  fix s L r
  assume IH: "\<And>s L r. loop s L = Some r \<Longrightarrow>
                 lexer_inv L \<longrightarrow> (\<forall>s' L'. r = Inr (s', L') \<longrightarrow> lexer_inv L')"
    and eq: "(if stream_ok s
              then case ParseInputStream_body s L of
                     Inl e \<Rightarrow> Some (Inl e)
                   | Inr (s1, L1) \<Rightarrow> loop s1 L1
              else Some (Inr (s, L))) = Some r"
  show "lexer_inv L \<longrightarrow> (\<forall>s' L'. r = Inr (s', L') \<longrightarrow> lexer_inv L')"
  proof (cases "stream_ok s")
    case False
    then show ?thesis using eq by auto
  next
    case True
    show ?thesis
    proof (cases "ParseInputStream_body s L")
      case (Inl e)
      then show ?thesis using True eq by auto
    next
      case (Inr p)
      obtain s1 L1 where p: "p = (s1, L1)" by (cases p)
      have "loop s1 L1 = Some r" using True Inr p eq by simp
      then have "lexer_inv L1 \<longrightarrow> (\<forall>s' L'. r = Inr (s', L') \<longrightarrow> lexer_inv L')"
        by (rule IH)
      moreover have "lexer_inv L \<Longrightarrow> lexer_inv L1"
        using Inr p by (auto intro: ParseInputStream_body_inv)
      ultimately show ?thesis by blast
    qed
  qed
qed

lemma ParseInputStream_dedent_result:
  "0 \<le> global_indent_counter L \<Longrightarrow>
   ParseInputStream_dedent L =
     L\<lparr>tokens := tokens L @ replicate (nat (global_indent_counter L)) Dedent_tok,
        global_indent_counter := 0\<rparr>"
proof (induction L rule: ParseInputStream_dedent.induct)
  case (1 L)
  show ?case
  proof (cases "global_indent_counter L > 0")
    case True
    have n: "nat (global_indent_counter L) = Suc (nat (global_indent_counter L - 1))"
      using True by linarith
    show ?thesis
      using True 1(1) [OF True]
      by (subst ParseInputStream_dedent.simps)
         (simp add: n emplace_back_def replicate_append_same)
  next
    case False
    then show ?thesis using 1(2)
      by (subst ParseInputStream_dedent.simps) simp
  qed
qed

lemma lexer_inv_empty:
  "lexer_inv (L\<lparr>tokens := [], current_token_it := 0, global_indent_counter := 0\<rparr>)"
  by (simp add: lexer_inv_def nonneg_prefixes_def balance_def)

lemma Lexer_Lexer_loop:
  assumes "Lexer_Lexer src = Some (Inr L)"
  shows "\<exists>L1. lexer_inv L1 \<and> L = ParseInputStream_finish L1"
proof -
  let ?L0 = "\<lparr>tokens = [], current_token_it = 0, global_indent_counter = 0\<rparr>
               \<lparr>tokens := [], current_token_it := 0, global_indent_counter := 0\<rparr>"
  from assms obtain s L1 where
    run: "ParseInputStream_loop (TrimSpaces (from_string src)) ?L0 = Some (Inr (s, L1))"
    and L: "L = ParseInputStream_finish L1"
    by (auto simp: Lexer_Lexer_def ParseInputStream_def
        split: option.splits sum.splits prod.splits)
  have "lexer_inv ?L0" by (rule lexer_inv_empty)
  then have "lexer_inv L1"
    using ParseInputStream_loop_inv [OF run] by blast
  then show ?thesis using L by blast
qed

lemma finish_tokens:
  assumes "lexer_inv L1"
  shows "tokens (ParseInputStream_finish L1) =
     (if needs_newline L1 then tokens L1 @ [Newline_tok] else tokens L1)
       @ replicate (nat (global_indent_counter L1)) Dedent_tok @ [Eof_tok]"
  using lexer_inv_balance_nonneg [OF assms]
  by (simp add: ParseInputStream_finish_def Let_def ParseInputStream_dedent_result
      emplace_back_def)

lemma count_list_replicate_other: "x \<noteq> y \<Longrightarrow> count_list (replicate n x) y = 0"
  by (induction n) simp_all

lemma count_list_replicate_same: "count_list (replicate n x) x = n"
  by (induction n) simp_all

lemma count_list_notin: "x \<notin> set xs \<Longrightarrow> count_list xs x = 0"
  by (induction xs) auto

lemma lexer_inv_no_Eof: "lexer_inv L \<Longrightarrow> Eof_tok \<notin> set (tokens L)"
  unfolding lexer_inv_def by blast

lemma lexer_inv_balance: "lexer_inv L \<Longrightarrow> global_indent_counter L = balance (tokens L)"
  unfolding lexer_inv_def by blast

lemma lexer_inv_prefixes: "lexer_inv L \<Longrightarrow> nonneg_prefixes (tokens L)"
  unfolding lexer_inv_def by blast

text \<open>The tokens before the trailing \<open>Dedent\<close>s.\<close>

lemma front_props:
  assumes inv: "lexer_inv L1"
    and front: "front = (if needs_newline L1 then tokens L1 @ [Newline_tok] else tokens L1)"
  shows "Eof_tok \<notin> set front" and "balance front = global_indent_counter L1"
    and "nonneg_prefixes front"
    and "front = [] \<and> global_indent_counter L1 = 0 \<or> front \<noteq> [] \<and> last front = Newline_tok"
proof -
  have e: "Eof_tok \<notin> set (tokens L1)" using inv by (rule lexer_inv_no_Eof)
  have b: "global_indent_counter L1 = balance (tokens L1)" using inv by (rule lexer_inv_balance)
  have p: "nonneg_prefixes (tokens L1)" using inv by (rule lexer_inv_prefixes)
  have g: "0 \<le> balance (tokens L1)" using lexer_inv_balance_nonneg [OF inv] b by simp
  show "Eof_tok \<notin> set front"
    using e by (cases "needs_newline L1") (simp_all add: front)
  show "balance front = global_indent_counter L1"
    by (cases "needs_newline L1") (simp_all add: front b balance_snoc)
  show "nonneg_prefixes front"
    using p g by (cases "needs_newline L1") (simp_all add: front prefixes_snoc balance_snoc)
  show "front = [] \<and> global_indent_counter L1 = 0 \<or> front \<noteq> [] \<and> last front = Newline_tok"
  proof (cases "tokens L1 = []")
    case True
    then show ?thesis by (simp add: front b needs_newline_def balance_def)
  next
    case False
    then show ?thesis by (simp add: front needs_newline_def)
  qed
qed

lemma finish_end:
  assumes inv: "lexer_inv L1"
  shows "count_list (tokens (ParseInputStream_finish L1)) Eof_tok = 1 \<and>
         last (tokens (ParseInputStream_finish L1)) = Eof_tok \<and>
         (\<exists>front k. tokens (ParseInputStream_finish L1) = front @ replicate k Dedent_tok @ [Eof_tok] \<and>
            count_list front Indent_tok = count_list front Dedent_tok + k \<and>
            (front = [] \<and> k = 0 \<or> front \<noteq> [] \<and> last front = Newline_tok))"
proof -
  define front where "front = (if needs_newline L1 then tokens L1 @ [Newline_tok] else tokens L1)"
  define k where "k = nat (global_indent_counter L1)"
  have t: "tokens (ParseInputStream_finish L1) = front @ replicate k Dedent_tok @ [Eof_tok]"
    unfolding front_def k_def by (rule finish_tokens [OF inv])
  have no_eof: "Eof_tok \<notin> set front"
    using front_props(1) [OF inv front_def] .
  have one: "count_list (front @ replicate k Dedent_tok @ [Eof_tok]) Eof_tok = 1"
    using no_eof by (simp add: count_list_notin count_list_replicate_other)
  have lst: "last (front @ replicate k Dedent_tok @ [Eof_tok]) = Eof_tok"
    by simp
  have "int k = balance front"
    using front_props(2) [OF inv front_def] lexer_inv_balance_nonneg [OF inv]
    by (simp add: k_def)
  then have depth: "count_list front Indent_tok = count_list front Dedent_tok + k"
    unfolding balance_def by linarith
  have shape: "front = [] \<and> k = 0 \<or> front \<noteq> [] \<and> last front = Newline_tok"
    using front_props(4) [OF inv front_def] by (auto simp: k_def)
  show ?thesis
    unfolding t using one lst depth shape by blast
qed

text \<open>
  Claim C6, as the specification states it, fails: the token before \<open>Eof\<close> need not be
  \<open>Newline\<close>. The \<open>Dedent\<close> tokens that close the open blocks are emitted after the last
  \<open>Newline\<close>, so an input that ends inside a block ends in \<open>Newline\<close>, \<open>Dedent\<close>, \<open>Eof\<close>.
\<close>

theorem C6_Newline_before_Eof_counterexample:
  "Lexer_Lexer (''if x:'' @ [CHR 0x0A] @ ''  y'' @ [CHR 0x0A]) =
     Some (Inr \<lparr>tokens = [If_tok, Id_tok ''x'', Char_tok CHR '':'', Newline_tok, Indent_tok,
                           Id_tok ''y'', Newline_tok, Dedent_tok, Eof_tok],
                 current_token_it = 0, global_indent_counter = 0\<rparr>)"
  by (simp add: lexer_loops lexer_defs)

text \<open>
  Claim C6, amended: when the construction succeeds the token vector holds exactly one
  \<open>Eof\<close>, which is its last token. The vector is a front, then \<open>k\<close> trailing \<open>Dedent\<close>
  tokens, then \<open>Eof\<close>, where \<open>k\<close> is the depth at the end of the input: the number by
  which the \<open>Indent\<close> tokens of the front exceed its \<open>Dedent\<close> tokens (so there is none
  when the input ends at depth 0, and the trailing \<open>Dedent\<close> tokens restore depth 0).
  The front ends in \<open>Newline\<close>, unless the vector is \<open>Eof\<close> alone.
\<close>

theorem C6_stream_end:
  assumes "Lexer_Lexer src = Some (Inr L)"
  shows "count_list (tokens L) Eof_tok = 1 \<and> last (tokens L) = Eof_tok \<and>
         (\<exists>front k. tokens L = front @ replicate k Dedent_tok @ [Eof_tok] \<and>
            count_list front Indent_tok = count_list front Dedent_tok + k \<and>
            (front = [] \<and> k = 0 \<or> front \<noteq> [] \<and> last front = Newline_tok))"
  using Lexer_Lexer_loop [OF assms] finish_end by blast

text \<open>
  The amended claim C6 on the input of the two lines \<open>a\<close> and \<open>b\<close>, the second indented
  by two spaces, which ends inside a block: one trailing \<open>Dedent\<close> closes the one open
  \<open>Indent\<close>.
\<close>

theorem C6_stream_end_witness:
  "Lexer_Lexer (''a'' @ [CHR 0x0A] @ ''  b'') =
     Some (Inr \<lparr>tokens = [Id_tok ''a'', Newline_tok, Indent_tok, Id_tok ''b'', Newline_tok,
                           Dedent_tok, Eof_tok],
                 current_token_it = 0, global_indent_counter = 0\<rparr>)
   \<and> (count_list [Id_tok ''a'', Newline_tok, Indent_tok, Id_tok ''b'', Newline_tok,
                   Dedent_tok, Eof_tok] Eof_tok = 1 \<and>
      last [Id_tok ''a'', Newline_tok, Indent_tok, Id_tok ''b'', Newline_tok,
            Dedent_tok, Eof_tok] = Eof_tok \<and>
      (\<exists>front k. [Id_tok ''a'', Newline_tok, Indent_tok, Id_tok ''b'', Newline_tok,
                   Dedent_tok, Eof_tok] = front @ replicate k Dedent_tok @ [Eof_tok] \<and>
         count_list front Indent_tok = count_list front Dedent_tok + k \<and>
         (front = [] \<and> k = 0 \<or> front \<noteq> [] \<and> last front = Newline_tok)))
   \<and> [Id_tok ''a'', Newline_tok, Indent_tok, Id_tok ''b'', Newline_tok, Dedent_tok, Eof_tok] =
       [Id_tok ''a'', Newline_tok, Indent_tok, Id_tok ''b'', Newline_tok]
         @ replicate (Suc 0) Dedent_tok @ [Eof_tok]"
proof -
  have c: "Lexer_Lexer (''a'' @ [CHR 0x0A] @ ''  b'') =
     Some (Inr \<lparr>tokens = [Id_tok ''a'', Newline_tok, Indent_tok, Id_tok ''b'', Newline_tok,
                           Dedent_tok, Eof_tok],
                 current_token_it = 0, global_indent_counter = 0\<rparr>)"
    by (simp add: lexer_loops lexer_defs)
  have e: "[Id_tok ''a'', Newline_tok, Indent_tok, Id_tok ''b'', Newline_tok, Dedent_tok, Eof_tok] =
       [Id_tok ''a'', Newline_tok, Indent_tok, Id_tok ''b'', Newline_tok]
         @ replicate (Suc 0) Dedent_tok @ [Eof_tok]"
    by simp
  show ?thesis
    using c C6_stream_end [OF c] e by (simp only: Lexer.select_convs)
qed

lemma balance_append: "balance (xs @ ys) = balance xs + balance ys"
  by (simp add: balance_def)

lemma balance_Dedents: "balance (replicate k Dedent_tok) = - int k"
  by (simp add: balance_def count_list_replicate_same count_list_replicate_other)

lemma nonneg_prefixes_append_Dedents:
  "nonneg_prefixes ts \<Longrightarrow> int k \<le> balance ts \<Longrightarrow> nonneg_prefixes (ts @ replicate k Dedent_tok)"
proof (induction k)
  case 0
  then show ?case by simp
next
  case (Suc k)
  then have "nonneg_prefixes (ts @ replicate k Dedent_tok)" by simp
  moreover have "0 \<le> balance ((ts @ replicate k Dedent_tok) @ [Dedent_tok])"
    using Suc.prems(2) balance_Dedents [of 1] by (simp add: balance_append balance_Dedents)
  ultimately have "nonneg_prefixes ((ts @ replicate k Dedent_tok) @ [Dedent_tok])"
    by (simp only: prefixes_snoc)
  then show ?case by (simp add: replicate_append_same)
qed

lemma finish_balanced:
  assumes inv: "lexer_inv L1"
  shows "balance (tokens (ParseInputStream_finish L1)) = 0 \<and>
         nonneg_prefixes (tokens (ParseInputStream_finish L1))"
proof -
  define front where "front = (if needs_newline L1 then tokens L1 @ [Newline_tok] else tokens L1)"
  define k where "k = nat (global_indent_counter L1)"
  have t: "tokens (ParseInputStream_finish L1) = (front @ replicate k Dedent_tok) @ [Eof_tok]"
    unfolding front_def k_def using finish_tokens [OF inv] by simp
  have g: "0 \<le> global_indent_counter L1"
    using inv by (rule lexer_inv_balance_nonneg)
  have bf: "balance front = global_indent_counter L1"
    using front_props(2) [OF inv front_def] .
  have pf: "nonneg_prefixes front"
    using front_props(3) [OF inv front_def] .
  have pd: "nonneg_prefixes (front @ replicate k Dedent_tok)"
    using pf bf g by (intro nonneg_prefixes_append_Dedents) (simp_all add: k_def)
  have bd: "balance (front @ replicate k Dedent_tok) = 0"
    using bf g by (simp add: balance_append balance_Dedents k_def)
  have b: "balance ((front @ replicate k Dedent_tok) @ [Eof_tok]) = 0"
    using bd by (simp only: balance_snoc) simp
  have p: "nonneg_prefixes ((front @ replicate k Dedent_tok) @ [Eof_tok])"
    using pd b by (simp only: prefixes_snoc) simp
  show ?thesis
    unfolding t using b p by blast
qed

text \<open>
  The check at the end of \<open>ParseIndent\<close>. It cannot fire on a space count and a depth
  that are not negative, which is all \<open>ParseIndent\<close> passes; on a negative space count
  it does.
\<close>

lemma ParseIndent_adjust_returns:
  assumes "0 \<le> sp" and "0 \<le> global_indent_counter L"
  shows "\<exists>L'. ParseIndent_adjust s sp L = Inr (s, L')"
proof -
  consider (up) "global_indent_counter L * 2 < sp"
    | (down) "global_indent_counter L * 2 > sp"
    | (same) "global_indent_counter L * 2 = sp"
    by linarith
  then show ?thesis
  proof cases
    case up
    have "0 \<le> (sp - global_indent_counter L * 2 + 1) div 2"
      using up by linarith
    then show ?thesis
      using up assms
      by (simp add: ParseIndent_adjust_def Let_def SPACES_PER_INDENT_def ParseIndent_up_result)
  next
    case down
    have "(global_indent_counter L * 2 - sp + 1) div 2 \<le> global_indent_counter L"
      using assms by linarith
    moreover have "0 \<le> (global_indent_counter L * 2 - sp + 1) div 2"
      using down by linarith
    ultimately show ?thesis
      using down
      by (simp add: ParseIndent_adjust_def Let_def SPACES_PER_INDENT_def ParseIndent_down_result)
  next
    case same
    then show ?thesis
      using assms by (simp add: ParseIndent_adjust_def Let_def SPACES_PER_INDENT_def)
  qed
qed

lemma char_of_49: "char_of (49::nat) = CHR ''1''"
  by code_simp

lemma ParseIndent_adjust_negative:
  "ParseIndent_adjust (from_string []) (- 2)
      \<lparr>tokens = [], current_token_it = 0, global_indent_counter = 0\<rparr>
     = Inl (LexerError ''ParseIndent() produced negative global indent: -1'')"
  by (simp add: ParseIndent_adjust_def SPACES_PER_INDENT_def ParseIndent_down.simps
      emplace_back_def to_string_def digits_of_nat.simps char_of_49)

lemma ParseIndent_adjust_check:
  "(case ParseIndent_adjust s sp L of
      Inl e \<Rightarrow> \<exists>msg. e = LexerError msg
    | Inr (s', L') \<Rightarrow> 0 \<le> global_indent_counter L')"
  by (simp add: ParseIndent_adjust_def Let_def)

text \<open>
  Claim C7: when the construction succeeds, the token vector holds as many \<open>Indent\<close> as
  \<open>Dedent\<close> tokens, and no prefix of it holds more \<open>Dedent\<close> than \<open>Indent\<close> tokens; and
  the indent handling of \<open>ParseIndent\<close> never returns with a negative depth: where the
  depth it computed is negative it throws \<open>LexerError\<close>.
\<close>

theorem C7_indents_balanced:
  assumes "Lexer_Lexer src = Some (Inr L)"
  shows "count_list (tokens L) Indent_tok = count_list (tokens L) Dedent_tok \<and>
         (\<forall>n. count_list (take n (tokens L)) Dedent_tok
                 \<le> count_list (take n (tokens L)) Indent_tok) \<and>
         (\<forall>s sp L0. case ParseIndent_adjust s sp L0 of
                      Inl e \<Rightarrow> \<exists>msg. e = LexerError msg
                    | Inr (s', L') \<Rightarrow> 0 \<le> global_indent_counter L')"
proof -
  from Lexer_Lexer_loop [OF assms] obtain L1 where
    inv: "lexer_inv L1" and L: "L = ParseInputStream_finish L1"
    by blast
  have b: "balance (tokens L) = 0" and p: "nonneg_prefixes (tokens L)"
    unfolding L using finish_balanced [OF inv] by blast+
  have "count_list (tokens L) Indent_tok = count_list (tokens L) Dedent_tok"
    using b unfolding balance_def by linarith
  moreover have "count_list (take n (tokens L)) Dedent_tok
                 \<le> count_list (take n (tokens L)) Indent_tok" for n
    using p [unfolded nonneg_prefixes_def, rule_format, of n] unfolding balance_def by linarith
  ultimately show ?thesis using ParseIndent_adjust_check by blast
qed

text \<open>
  Claim C7 on the input of the two lines \<open>a\<close> and \<open>b\<close>, the second indented by two
  spaces: one \<open>Indent\<close>, closed by one \<open>Dedent\<close> at the end of the input.
\<close>

theorem C7_indents_balanced_witness:
  "Lexer_Lexer (''a'' @ [CHR 0x0A] @ ''  b'') =
     Some (Inr \<lparr>tokens = [Id_tok ''a'', Newline_tok, Indent_tok, Id_tok ''b'', Newline_tok,
                           Dedent_tok, Eof_tok],
                 current_token_it = 0, global_indent_counter = 0\<rparr>)
   \<and> count_list [Id_tok ''a'', Newline_tok, Indent_tok, Id_tok ''b'', Newline_tok,
                   Dedent_tok, Eof_tok] Indent_tok
     = count_list [Id_tok ''a'', Newline_tok, Indent_tok, Id_tok ''b'', Newline_tok,
                   Dedent_tok, Eof_tok] Dedent_tok
   \<and> (\<forall>n. count_list (take n [Id_tok ''a'', Newline_tok, Indent_tok, Id_tok ''b'', Newline_tok,
                   Dedent_tok, Eof_tok]) Dedent_tok
          \<le> count_list (take n [Id_tok ''a'', Newline_tok, Indent_tok, Id_tok ''b'', Newline_tok,
                   Dedent_tok, Eof_tok]) Indent_tok)"
proof -
  have c: "Lexer_Lexer (''a'' @ [CHR 0x0A] @ ''  b'') =
     Some (Inr \<lparr>tokens = [Id_tok ''a'', Newline_tok, Indent_tok, Id_tok ''b'', Newline_tok,
                           Dedent_tok, Eof_tok],
                 current_token_it = 0, global_indent_counter = 0\<rparr>)"
    by (simp add: lexer_loops lexer_defs)
  show ?thesis
    using c C7_indents_balanced [OF c] by (simp only: Lexer.select_convs) blast
qed

subsection \<open>Indentation that is not a multiple of two\<close>







section \<open>Properties of the runtime\<close>

subsection \<open>Method lookup along a chain of parents\<close>

lemma find_snoc:
  "find P (xs @ [a]) = (case find P xs of Some x \<Rightarrow> Some x | None \<Rightarrow> if P a then Some a else None)"
  by (induction xs) simp_all

lemma fill_vftable_lookup:
  "fill_vftable ms table m =
     (case find (\<lambda>x. name x = m) (rev ms) of Some x \<Rightarrow> Some x | None \<Rightarrow> table m)"
proof (induction ms arbitrary: table)
  case Nil
  show ?case by (simp add: fill_vftable_def)
next
  case (Cons a ms)
  have "fill_vftable (a # ms) table m = fill_vftable ms (table(name a \<mapsto> a)) m"
    unfolding fill_vftable_def by (simp only: fold_simps comp_apply)
  also have "\<dots> = (case find (\<lambda>x. name x = m) (rev ms) of
                      Some x \<Rightarrow> Some x
                    | None \<Rightarrow> (table(name a \<mapsto> a)) m)"
    by (rule Cons.IH)
  also have "\<dots> = (case find (\<lambda>x. name x = m) (rev (a # ms)) of
                      Some x \<Rightarrow> Some x
                    | None \<Rightarrow> table m)"
    by (simp add: find_snoc split: option.splits)
  finally show ?case .
qed

text \<open>
  What the lookup returns: the last own method of that name, else the last of that name
  among the own methods of the direct parent, else null. The parent's table, which
  holds what the parent inherited, is not read.
\<close>

lemma GetMethod_Class_Class:
  "GetMethod (Class_Class nm ms p) m =
     (case find (\<lambda>x. name x = m) (rev ms) of
        Some x \<Rightarrow> Some x
      | None \<Rightarrow> (case p of
                   Some parent_class \<Rightarrow> find (\<lambda>x. name x = m) (rev (methods parent_class))
                 | None \<Rightarrow> None))"
  by (simp add: GetMethod_def Class_Class_def fill_vftable_lookup split: option.splits)

text \<open>
  Claim C1 says that \<open>GetMethod\<close> on the first class of a chain of parents returns the
  first definition of the name found scanning toward the root, so that a method defined
  only in a grandparent is reachable. The constructor seeds the table from the own
  methods of the parent (\<open>parent_->methods_\<close>), not from the parent's table. With
  \<open>A\<close> defining \<open>f\<close>, \<open>B\<close> a child of \<open>A\<close> and \<open>C\<close> a child of \<open>B\<close>, neither defining
  anything: \<open>f\<close> is found from \<open>B\<close>, the scan of the chain finds it from \<open>C\<close>, and
  \<open>GetMethod\<close> on \<open>C\<close> returns null.
\<close>

theorem C1_grandparent_method_unreachable:
  "(let f = \<lparr>name = ''f'', formal_params = [], body = Return_None\<rparr>;
        A = Class_Class ''A'' [f] None;
        B = Class_Class ''B'' [] (Some A);
        C = Class_Class ''C'' [] (Some B)
    in GetMethod B ''f'' = Some f \<and> GetMethod C ''f'' = None \<and> first_override C ''f'' = Some f)"
  by (simp add: Let_def Class_Class_def fill_vftable_def GetMethod_def)

subsection \<open>Comparisons through user-defined methods\<close>

lemma Less_instance:
  "HasMethod inst ''__lt__'' 1 \<Longrightarrow> Call exec inst ''__lt__'' [rhs] ctx = (Inr result, c1) \<Longrightarrow>
   Less exec (Some (InstanceObject inst)) rhs ctx = Bool_of_result result c1"
  by (simp add: Less_def TryAs_Number_def TryAs_String_def TryAs_Bool_def TryAs_ClassInstance_def)

lemma Equal_instance:
  "HasMethod inst ''__eq__'' 1 \<Longrightarrow> Call exec inst ''__eq__'' [rhs] ctx = (Inr result, c1) \<Longrightarrow>
   Equal exec (Some (InstanceObject inst)) rhs ctx = Bool_of_result result c1"
  by (simp add: Equal_def TryAs_Number_def TryAs_String_def TryAs_Bool_def TryAs_ClassInstance_def)

lemma Equal_instance_no_eq:
  "\<not> HasMethod inst ''__eq__'' 1 \<Longrightarrow>
   Equal exec (Some (InstanceObject inst)) rhs ctx =
     (Inl (runtime_error ''Cannot compare objects for equality''), ctx)"
  by (simp add: Equal_def TryAs_Number_def TryAs_String_def TryAs_Bool_def TryAs_ClassInstance_def)

lemma Bool_of_result_cases:
  "Bool_of_result result c =
     (case result of
        Some (Bool v) \<Rightarrow> (Inr v, c)
      | _ \<Rightarrow> (Inl (undefined_behaviour ''null pointer dereference''), c))"
  by (simp add: Bool_of_result_def TryAs_Bool_def split: option.splits Object.splits)

lemmas runtime_defs =
  Greater_def Less_def Equal_def Call_def HasMethod_def GetMethod_def Class_Class_def
  fill_vftable_def Bool_of_result_def TryAs_Number_def TryAs_String_def TryAs_Bool_def
  TryAs_ClassInstance_def

text \<open>
  Claim C2, as the specification states it, fails: for a class \<open>B\<close> with \<open>__lt__\<close> of
  arity 1 returning \<open>False\<close> and no \<open>__eq__\<close>, \<open>Greater(b1, b2)\<close> does not return false.
  \<open>Less\<close> returns false, so \<open>Equal\<close> is evaluated, and \<open>Equal\<close> on an instance without
  \<open>__eq__\<close> throws. On two instances of such a class \<open>Greater\<close> throws
  \<open>runtime_error\<close>, having run one body (that of \<open>__lt__\<close>).
\<close>

theorem C2_Greater_returns_false_counterexample:
  "Greater run_fixed_body
     (Some (InstanceObject (ClassInstance (Class_Class ''B''
        [\<lparr>name = ''__lt__'', formal_params = [''other''], body = Return_Bool False\<rparr>] None) [])))
     (Some (InstanceObject (ClassInstance (Class_Class ''B''
        [\<lparr>name = ''__lt__'', formal_params = [''other''], body = Return_Bool False\<rparr>] None) [])))
     0
   = (Inl (runtime_error ''Cannot compare objects for equality''), 1)"
  by (simp add: runtime_defs)

text \<open>
  When the class defines no \<open>__eq__\<close> itself but its table holds the one of its parent,
  \<open>Equal\<close> runs that one: what counts is what the lookup finds.
\<close>

lemma Greater_inherited_eq:
  "Greater run_fixed_body
     (Some (InstanceObject (ClassInstance (Class_Class ''B''
        [\<lparr>name = ''__lt__'', formal_params = [''other''], body = Return_Bool False\<rparr>]
        (Some (Class_Class ''A''
           [\<lparr>name = ''__eq__'', formal_params = [''other''], body = Return_Bool True\<rparr>]
           None))) [])))
     (Some (Number 3)) 0
   = (Inr False, 2)"
  by (simp add: runtime_defs)

text \<open>
  Claim C2, amended: for an instance \<open>b1\<close> for whose class the lookup finds \<open>__lt__\<close> of
  arity 1, with a body that returns \<open>Bool\<close> false, and finds no \<open>__eq__\<close> (neither its
  own nor one of its parent), and for any right-hand side \<open>b2\<close>, \<open>Greater(b1, b2, ctx)\<close>
  throws the runtime error "Cannot compare objects for equality": \<open>Less\<close> runs the body
  of \<open>__lt__\<close> once, on the closure that binds \<open>self\<close> and the formal parameter, and is
  false, and the \<open>Equal\<close> disjunct throws. The context \<open>Greater\<close> leaves is the one that
  single run leaves, so no other body, of \<open>__gt__\<close> or of anything else, is run.
\<close>

theorem C2_Greater_raises:
  assumes lt: "GetMethod (cls b1) ''__lt__'' = Some m" "length (formal_params m) = 1"
    and ret: "\<And>closure c. fst (exec (body m) closure c) = Inr (Some (Bool False))"
    and no_eq: "GetMethod (cls b1) ''__eq__'' = None"
  shows "Greater exec (Some (InstanceObject b1)) b2 ctx =
           (Inl (runtime_error ''Cannot compare objects for equality''),
            snd (exec (body m)
                   [''self'' \<mapsto> Some (InstanceObject b1), hd (formal_params m) \<mapsto> b2] ctx))"
proof -
  let ?closure = "[''self'' \<mapsto> Some (InstanceObject b1), hd (formal_params m) \<mapsto> b2]"
  have has: "HasMethod b1 ''__lt__'' 1"
    using lt by (simp add: HasMethod_def)
  obtain p where p: "formal_params m = [p]"
    using lt(2) by (cases "formal_params m") auto
  have call: "Call exec b1 ''__lt__'' [b2] ctx = exec (body m) ?closure ctx"
    using has lt(1) p by (simp add: Call_def)
  have run: "exec (body m) ?closure ctx =
               (Inr (Some (Bool False)), snd (exec (body m) ?closure ctx))"
    using ret [of ?closure ctx] by (cases "exec (body m) ?closure ctx") simp
  have less: "Less exec (Some (InstanceObject b1)) b2 ctx =
                (Inr False, snd (exec (body m) ?closure ctx))"
    using Less_instance [OF has, of exec b2 ctx "Some (Bool False)"
                           "snd (exec (body m) ?closure ctx)"] call run
    by (simp add: Bool_of_result_def TryAs_Bool_def)
  have "\<not> HasMethod b1 ''__eq__'' 1"
    using no_eq by (simp add: HasMethod_def)
  then show ?thesis
    using less by (simp add: Greater_def Equal_instance_no_eq)
qed

text \<open>
  The amended claim at a class that also defines \<open>__gt__\<close>, returning \<open>True\<close>: one body
  has run when \<open>Greater\<close> throws, and it is not that of \<open>__gt__\<close>.
\<close>

theorem C2_Greater_raises_witness:
  "Greater run_fixed_body
     (Some (InstanceObject (ClassInstance (Class_Class ''B''
        [\<lparr>name = ''__lt__'', formal_params = [''other''], body = Return_Bool False\<rparr>,
         \<lparr>name = ''__gt__'', formal_params = [''other''], body = Return_Bool True\<rparr>] None) [])))
     (Some (Number 3)) 0
   = (Inl (runtime_error ''Cannot compare objects for equality''), 1)"
proof -
  let ?m = "\<lparr>name = ''__lt__'', formal_params = [''other''], body = Return_Bool False\<rparr>"
  let ?b = "ClassInstance (Class_Class ''B''
        [?m, \<lparr>name = ''__gt__'', formal_params = [''other''], body = Return_Bool True\<rparr>] None) []"
  have 1: "GetMethod (cls ?b) ''__lt__'' = Some ?m"
    by (simp add: GetMethod_def Class_Class_def fill_vftable_def)
  have 2: "length (formal_params ?m) = 1"
    by simp
  have 3: "\<And>closure c. fst (run_fixed_body (body ?m) closure c) = Inr (Some (Bool False))"
    by simp
  have 4: "GetMethod (cls ?b) ''__eq__'' = None"
    by (simp add: GetMethod_def Class_Class_def fill_vftable_def)
  have "Greater run_fixed_body (Some (InstanceObject ?b)) (Some (Number 3)) 0 =
          (Inl (runtime_error ''Cannot compare objects for equality''),
           snd (run_fixed_body (body ?m)
                  [''self'' \<mapsto> Some (InstanceObject ?b), hd (formal_params ?m) \<mapsto> Some (Number 3)]
                  0))"
    using C2_Greater_raises [of ?b ?m run_fixed_body "Some (Number 3)" 0] 1 2 3 4
    by blast
  then show ?thesis
    by simp
qed

text \<open>
  Claim C10: when \<open>Equal\<close> (respectively \<open>Less\<close>) dispatches to the \<open>__eq__\<close>
  (respectively \<open>__lt__\<close>) method of a class instance, the handle the method returns is
  downcast to \<open>Bool\<close> without a guard. If it holds a \<open>Bool\<close> the comparison returns its
  value; on every other handle, the empty one included, the downcast is null and is
  dereferenced.
\<close>

theorem C10_unguarded_Bool_downcast:
  "(HasMethod inst ''__eq__'' 1 \<and> Call exec inst ''__eq__'' [rhs] ctx = (Inr result, c1) \<longrightarrow>
      Equal exec (Some (InstanceObject inst)) rhs ctx =
        (case result of
           Some (Bool v) \<Rightarrow> (Inr v, c1)
         | _ \<Rightarrow> (Inl (undefined_behaviour ''null pointer dereference''), c1)))
   \<and> (HasMethod inst ''__lt__'' 1 \<and> Call exec inst ''__lt__'' [rhs] ctx = (Inr result, c1) \<longrightarrow>
      Less exec (Some (InstanceObject inst)) rhs ctx =
        (case result of
           Some (Bool v) \<Rightarrow> (Inr v, c1)
         | _ \<Rightarrow> (Inl (undefined_behaviour ''null pointer dereference''), c1)))"
  using Equal_instance [of inst exec rhs ctx result c1]
        Less_instance [of inst exec rhs ctx result c1]
  by (simp only: Bool_of_result_cases) blast

text \<open>
  Claim C10 at a class whose \<open>__eq__\<close> returns a number and whose \<open>__lt__\<close> returns the
  empty handle: both comparisons dereference null.
\<close>

theorem C10_unguarded_Bool_downcast_witness:
  "Equal run_fixed_body
     (Some (InstanceObject (ClassInstance (Class_Class ''A''
        [\<lparr>name = ''__eq__'', formal_params = [''other''], body = Return_Number 3\<rparr>] None) [])))
     (Some (Number 3)) 0
     = (Inl (undefined_behaviour ''null pointer dereference''), 1)
   \<and> Less run_fixed_body
     (Some (InstanceObject (ClassInstance (Class_Class ''A''
        [\<lparr>name = ''__lt__'', formal_params = [''other''], body = Return_None\<rparr>] None) [])))
     (Some (Number 3)) 0
     = (Inl (undefined_behaviour ''null pointer dereference''), 1)"
proof -
  let ?e = "ClassInstance (Class_Class ''A''
        [\<lparr>name = ''__eq__'', formal_params = [''other''], body = Return_Number 3\<rparr>] None) []"
  let ?l = "ClassInstance (Class_Class ''A''
        [\<lparr>name = ''__lt__'', formal_params = [''other''], body = Return_None\<rparr>] None) []"
  have e: "HasMethod ?e ''__eq__'' 1
       \<and> Call run_fixed_body ?e ''__eq__'' [Some (Number 3)] 0 = (Inr (Some (Number 3)), 1)"
    by (simp add: Call_def HasMethod_def GetMethod_def Class_Class_def fill_vftable_def)
  have l: "HasMethod ?l ''__lt__'' 1
       \<and> Call run_fixed_body ?l ''__lt__'' [Some (Number 3)] 0 = (Inr None, 1)"
    by (simp add: Call_def HasMethod_def GetMethod_def Class_Class_def fill_vftable_def)
  show ?thesis
    using C10_unguarded_Bool_downcast
            [of ?e run_fixed_body "Some (Number 3)" 0 "Some (Number 3)" 1, THEN conjunct1] e
          C10_unguarded_Bool_downcast
            [of ?l run_fixed_body "Some (Number 3)" 0 None 1, THEN conjunct2] l
    by simp
qed

end
